theory Spec2Isabelle
  imports Main "HOL-Library.Sublist"
begin

section \<open>The page script \<open>assets/site.js\<close>\<close>

text \<open>
  The script consists of two routines, \<open>setYear\<close> and \<open>markActiveNav\<close>, which run
  once each when the page loads. Both read and mutate the page through the DOM. The
  page is modelled as a store of elements that the routines take and return; what
  they read from the environment, the clock and \<open>location.pathname\<close>, is a parameter.
  A call either completes with the new document (\<open>Inr\<close>) or throws (\<open>Inl\<close>).
\<close>

subsection \<open>Strings and the pattern \<open>/\/index\.html$/\<close>\<close>

text \<open>
  A string is a \<^typ>\<open>string\<close>; a character outside ASCII stands in it as the bytes of
  its UTF-8 encoding. The routines compare strings for equality and match them
  against an ASCII literal only, for which this reading and the script's own (UTF-16
  code units) agree.

  The pattern is the literal \<open>/index.html\<close> followed by \<open>$\<close>; it carries no flag, so
  \<open>$\<close> holds at the end of the input only. A match that starts at offset \<open>i\<close>
  therefore consumes the rest of the string.
\<close>

definition matches_at :: "string \<Rightarrow> nat \<Rightarrow> bool" where
  "matches_at s i = (drop i s = ''/index.html'')"

text \<open>The matcher tries the offsets \<open>0, 1, \<dots>, length s\<close> in turn; the leftmost match wins.\<close>

definition regexp_exec :: "string \<Rightarrow> nat option" where
  "regexp_exec s = find (matches_at s) [0..<Suc (length s)]"

text \<open>
  \<open>s.replace(/\/index\.html$/, '/')\<close>: the pattern is not global, so the first match
  (if any) is replaced by \<open>/\<close>, and a string without a match is returned as it is.
\<close>

definition replace_index_html :: "string \<Rightarrow> string" where
  "replace_index_html s =
     (case regexp_exec s of
        None \<Rightarrow> s
      | Some i \<Rightarrow> take i s @ ''/'' @ drop (i + length ''/index.html'') s)"

subsection \<open>Numbers as text\<close>

text \<open>
  Assigning a number to \<open>textContent\<close> stores the number as a string. For an integer
  such as a year this is its decimal numeral: a minus sign if the number is negative,
  then the digits of its magnitude, neither padded nor truncated.
\<close>

definition digit_char :: "nat \<Rightarrow> char" where
  "digit_char d = ''0123456789'' ! d"

fun nat_digits :: "nat \<Rightarrow> string" where
  "nat_digits n =
     (if n < 10 then [digit_char n] else nat_digits (n div 10) @ [digit_char (n mod 10)])"

declare nat_digits.simps [simp del]

definition Number_toString :: "int \<Rightarrow> string" where
  "Number_toString i =
     (if i < 0 then CHR ''-'' # nat_digits (nat (- i)) else nat_digits (nat i))"

text \<open>Reading a decimal numeral back, used to say which number a text denotes.\<close>

definition digit_val :: "char \<Rightarrow> nat" where
  "digit_val c = of_char c - 48"

definition numeral_val :: "string \<Rightarrow> nat" where
  "numeral_val s = foldl (\<lambda>a c. 10 * a + digit_val c) 0 s"

definition is_digit :: "char \<Rightarrow> bool" where
  "is_digit c = (c \<in> set ''0123456789'')"

subsection \<open>The document\<close>

text \<open>
  An element carries what the two routines read or write: its \<open>id\<close> and \<open>href\<close>
  attributes (\<open>None\<close> when the attribute is absent, which \<open>getAttribute\<close> reports as
  \<open>null\<close>), the tokens of its class list, its text, and whether the selector
  \<open>.nav a\<close> matches it. The selector looks at the tag of the element and at the class
  \<open>nav\<close> of its ancestors; the routines change neither, so the match is a field that
  no operation writes.

  The document lists its elements in tree order, and a reference to an element is its
  position in that list. References come from \<open>getElementById\<close> and
  \<open>querySelectorAll\<close> only, which yield positions inside the list. The nesting of
  elements is not represented: the text of an element is a field of its own, and the
  elements that an assignment to \<open>textContent\<close> would detach from below the target
  stay listed.
\<close>

record element =
  id_attr :: "string option"
  href_attr :: "string option"
  classList :: "string list"
  textContent :: string
  nav_anchor :: bool

type_synonym ref = nat

type_synonym document = "element list"

datatype error = TypeError | SyntaxError | InvalidCharacterError

text \<open>\<open>document.getElementById(s)\<close>: the first element in tree order with that id, or \<open>null\<close>.\<close>

definition getElementById :: "string \<Rightarrow> document \<Rightarrow> ref option" where
  "getElementById s doc = find (\<lambda>r. id_attr (doc ! r) = Some s) [0..<length doc]"

text \<open>\<open>document.querySelectorAll('.nav a')\<close>: the matching elements in tree order, as a static list.\<close>

definition querySelectorAll_nav_a :: "document \<Rightarrow> ref list" where
  "querySelectorAll_nav_a doc = filter (\<lambda>r. nav_anchor (doc ! r)) [0..<length doc]"

text \<open>\<open>y.textContent = s\<close>: writing a property of \<open>null\<close> throws a \<open>TypeError\<close>.\<close>

definition set_textContent :: "ref option \<Rightarrow> string \<Rightarrow> document \<Rightarrow> error + document" where
  "set_textContent y s doc =
     (case y of
        None \<Rightarrow> Inl TypeError
      | Some r \<Rightarrow> Inr (doc[r := (doc ! r)\<lparr>textContent := s\<rparr>]))"

text \<open>
  \<open>classList.add(tok)\<close>: an empty token is a \<open>SyntaxError\<close>, a token with ASCII
  whitespace an \<open>InvalidCharacterError\<close>; otherwise the token is appended unless the
  list holds it already.
\<close>

definition ascii_whitespace :: "char \<Rightarrow> bool" where
  "ascii_whitespace c = (c \<in> set [CHR 0x09, CHR 0x0A, CHR 0x0C, CHR 0x0D, CHR 0x20])"

definition classList_add :: "string \<Rightarrow> string list \<Rightarrow> error + string list" where
  "classList_add tok cs =
     (if tok = [] then Inl SyntaxError
      else if list_ex ascii_whitespace tok then Inl InvalidCharacterError
      else Inr (if tok \<in> set cs then cs else cs @ [tok]))"

subsection \<open>\<open>setYear\<close>\<close>

text \<open>
  \<open>fullYear\<close> is what \<open>new Date().getFullYear()\<close> yields: the calendar year of the
  clock reading in local time.
\<close>

definition setYear :: "int \<Rightarrow> document \<Rightarrow> error + document" where
  "setYear fullYear doc =
     (let y = getElementById ''y'' doc in
      if y \<noteq> None then set_textContent y (Number_toString fullYear) doc else Inr doc)"

subsection \<open>\<open>markActiveNav\<close>\<close>

text \<open>
  The callback of \<open>forEach\<close>. \<open>!href\<close> holds for \<open>null\<close> and for the empty string; in
  both cases the callback returns at once.
\<close>

definition nav_callback :: "string \<Rightarrow> ref \<Rightarrow> document \<Rightarrow> error + document" where
  "nav_callback here a doc =
     (case href_attr (doc ! a) of
        None \<Rightarrow> Inr doc
      | Some href \<Rightarrow>
          if href = [] then Inr doc
          else
            let norm = replace_index_html href in
            if norm = here then
              (case classList_add ''active'' (classList (doc ! a)) of
                 Inl e \<Rightarrow> Inl e
               | Inr cs \<Rightarrow> Inr (doc[a := (doc ! a)\<lparr>classList := cs\<rparr>]))
            else Inr doc)"

text \<open>\<open>forEach\<close> calls the callback on each reference in order; an exception ends the loop.\<close>

fun forEach :: "(ref \<Rightarrow> document \<Rightarrow> error + document) \<Rightarrow> ref list \<Rightarrow> document \<Rightarrow> error + document" where
  "forEach f [] doc = Inr doc"
| "forEach f (a # as) doc =
     (case f a doc of
        Inl e \<Rightarrow> Inl e
      | Inr doc' \<Rightarrow> forEach f as doc')"

definition markActiveNav :: "string \<Rightarrow> document \<Rightarrow> error + document" where
  "markActiveNav pathname doc =
     (let here = replace_index_html pathname in
      forEach (nav_callback here) (querySelectorAll_nav_a doc) doc)"

text \<open>The anchors that carry the flag, as \<open>querySelectorAll('.nav a.active')\<close> would list them.\<close>

definition active_anchors :: "document \<Rightarrow> ref list" where
  "active_anchors doc =
     filter (\<lambda>r. ''active'' \<in> set (classList (doc ! r))) (querySelectorAll_nav_a doc)"

text \<open>
  What one call of the callback does to the element it visits, as a function of that
  element alone: the loop is compared with it below.
\<close>

definition mark :: "string \<Rightarrow> element \<Rightarrow> element" where
  "mark here e =
     (case href_attr e of
        None \<Rightarrow> e
      | Some h \<Rightarrow>
          if h \<noteq> [] \<and> replace_index_html h = here
          then e\<lparr>classList :=
                 (if ''active'' \<in> set (classList e) then classList e
                  else classList e @ [''active''])\<rparr>
          else e)"

subsection \<open>Example pages\<close>

definition home_link :: element where
  "home_link = \<lparr>id_attr = None, href_attr = Some ''/'', classList = [],
     textContent = ''Home'', nav_anchor = True\<rparr>"

definition blog_link :: element where
  "blog_link = \<lparr>id_attr = None, href_attr = Some ''/blog/'', classList = [],
     textContent = ''Blog'', nav_anchor = True\<rparr>"

definition about_link :: element where
  "about_link = \<lparr>id_attr = None, href_attr = Some ''/about/index.html'', classList = [''muted''],
     textContent = ''About'', nav_anchor = True\<rparr>"

definition bare_link :: element where
  "bare_link = \<lparr>id_attr = None, href_attr = None, classList = [],
     textContent = ''Top'', nav_anchor = True\<rparr>"

definition empty_link :: element where
  "empty_link = \<lparr>id_attr = None, href_attr = Some [], classList = [],
     textContent = ''Here'', nav_anchor = True\<rparr>"

definition stale_link :: element where
  "stale_link = \<lparr>id_attr = None, href_attr = Some ''/old/'', classList = [''active''],
     textContent = ''Old'', nav_anchor = True\<rparr>"

definition year_span :: element where
  "year_span = \<lparr>id_attr = Some ''y'', href_attr = None, classList = [],
     textContent = [], nav_anchor = False\<rparr>"

definition page :: document where
  "page = [bare_link, home_link, blog_link, about_link, empty_link, stale_link, year_span]"

definition page_without_year :: document where
  "page_without_year = [home_link, blog_link]"

section \<open>Properties of the pattern replacement\<close>

lemma matches_at_iff:
  "matches_at s i \<longleftrightarrow> suffix ''/index.html'' s \<and> i = length s - 11"
proof
  assume "matches_at s i"
  then have d: "drop i s = ''/index.html''" by (simp add: matches_at_def)
  then have "length (drop i s) = 11" by simp
  then have i: "i = length s - 11" by simp
  have "s = take i s @ ''/index.html''" using d by (metis append_take_drop_id)
  then have "suffix ''/index.html'' s" by (metis suffixI)
  with i show "suffix ''/index.html'' s \<and> i = length s - 11" by simp
next
  assume h: "suffix ''/index.html'' s \<and> i = length s - 11"
  then obtain zs where s: "s = zs @ ''/index.html''" by (auto simp: suffix_def)
  with h show "matches_at s i" by (simp add: matches_at_def)
qed

lemma regexp_exec_no_match:
  assumes "\<not> suffix ''/index.html'' s"
  shows "regexp_exec s = None"
proof -
  have "\<not> (\<exists>i. i \<in> set [0..<Suc (length s)] \<and> matches_at s i)"
    using assms by (simp add: matches_at_iff)
  then show ?thesis unfolding regexp_exec_def find_None_iff by simp
qed

lemma regexp_exec_match:
  "regexp_exec (p @ ''/index.html'') = Some (length p)"
proof -
  let ?s = "p @ ''/index.html''"
  have at: "\<And>j. matches_at ?s j \<longleftrightarrow> j = length p"
    by (simp add: matches_at_iff suffix_def)
  have "\<exists>i<length [0..<Suc (length ?s)].
          matches_at ?s ([0..<Suc (length ?s)] ! i) \<and> length p = [0..<Suc (length ?s)] ! i \<and>
          (\<forall>j<i. \<not> matches_at ?s ([0..<Suc (length ?s)] ! j))"
  proof (intro exI [of _ "length p"] conjI allI impI)
    show "length p < length [0..<Suc (length ?s)]" by simp
    have n: "[0..<Suc (length ?s)] ! length p = length p"
      by (metis add_0 length_append less_Suc_eq_le le_add1 nth_upt)
    show "matches_at ?s ([0..<Suc (length ?s)] ! length p)"
      unfolding n by (simp add: matches_at_def)
    show "length p = [0..<Suc (length ?s)] ! length p" using n by simp
  next
    fix j assume j: "j < length p"
    then have "[0..<Suc (length ?s)] ! j = j"
      by (metis add_0 length_append less_Suc_eq trans_less_add1 nth_upt)
    moreover have "\<not> matches_at ?s j" using at [of j] j by simp
    ultimately show "\<not> matches_at ?s ([0..<Suc (length ?s)] ! j)" by simp
  qed
  then show ?thesis unfolding regexp_exec_def find_Some_iff .
qed

lemma replace_no_match:
  "\<not> suffix ''/index.html'' s \<Longrightarrow> replace_index_html s = s"
  by (simp add: replace_index_html_def regexp_exec_no_match)

lemma replace_match:
  "replace_index_html (p @ ''/index.html'') = p @ ''/''"
  by (simp add: replace_index_html_def regexp_exec_match)

lemma slash_end_no_match: "\<not> suffix ''/index.html'' (p @ ''/'')"
proof
  assume "suffix ''/index.html'' (p @ ''/'')"
  then obtain zs where "p @ ''/'' = zs @ ''/index.html''" by (auto simp: suffix_def)
  then have "last (p @ ''/'') = last (zs @ ''/index.html'')" by simp
  then show False by simp
qed

lemma replace_empty_iff: "replace_index_html s = [] \<longleftrightarrow> s = []"
proof (cases "suffix ''/index.html'' s")
  case True
  then obtain p where "s = p @ ''/index.html''" by (auto simp: suffix_def)
  then show ?thesis by (simp add: replace_match)
next
  case False
  then show ?thesis by (simp add: replace_no_match)
qed

section \<open>The loop of \<open>markActiveNav\<close>, element by element\<close>

lemma classList_add_active:
  "classList_add ''active'' cs = Inr (if ''active'' \<in> set cs then cs else cs @ [''active''])"
  by (simp add: classList_add_def ascii_whitespace_def)

lemma nav_callback_mark:
  "nav_callback here a doc = Inr (doc[a := mark here (doc ! a)])"
  by (simp add: nav_callback_def mark_def classList_add_active Let_def split: option.split)

lemma forEach_nav_callback:
  "forEach (nav_callback here) rs doc = Inr (fold (\<lambda>a d. d[a := mark here (d ! a)]) rs doc)"
  by (induction rs arbitrary: doc) (simp_all add: nav_callback_mark)

lemma length_fold_update:
  "length (fold (\<lambda>a d. d[a := g (d ! a)]) rs d) = length d"
  by (induction rs arbitrary: d) simp_all

lemma nth_fold_update:
  "distinct rs \<Longrightarrow> i < length d \<Longrightarrow>
   fold (\<lambda>a d. d[a := g (d ! a)]) rs d ! i = (if i \<in> set rs then g (d ! i) else d ! i)"
proof (induction rs arbitrary: d)
  case Nil
  then show ?case by simp
next
  case (Cons a rs)
  let ?d = "d[a := g (d ! a)]"
  have i: "i < length ?d" using Cons.prems by simp
  have d: "distinct rs" and a: "a \<notin> set rs" using Cons.prems by simp_all
  have step: "fold (\<lambda>a d. d[a := g (d ! a)]) rs ?d ! i = (if i \<in> set rs then g (?d ! i) else ?d ! i)"
    using Cons.IH [OF d i] .
  show ?case
  proof (cases "i = a")
    case True
    with a step Cons.prems show ?thesis by simp
  next
    case False
    with step Cons.prems show ?thesis by simp
  qed
qed

lemma set_querySelectorAll:
  "r \<in> set (querySelectorAll_nav_a doc) \<longleftrightarrow> r < length doc \<and> nav_anchor (doc ! r)"
  by (auto simp: querySelectorAll_nav_a_def)

lemma distinct_querySelectorAll: "distinct (querySelectorAll_nav_a doc)"
  by (simp add: querySelectorAll_nav_a_def)

lemma markActiveNav_map:
  "markActiveNav pathname doc =
     Inr (map (\<lambda>e. if nav_anchor e then mark (replace_index_html pathname) e else e) doc)"
proof -
  let ?here = "replace_index_html pathname"
  let ?d = "fold (\<lambda>a d. d[a := mark ?here (d ! a)]) (querySelectorAll_nav_a doc) doc"
  have "?d = map (\<lambda>e. if nav_anchor e then mark ?here e else e) doc"
  proof (rule nth_equalityI)
    show "length ?d = length (map (\<lambda>e. if nav_anchor e then mark ?here e else e) doc)"
      by (simp add: length_fold_update)
  next
    fix i assume "i < length ?d"
    then have i: "i < length doc" by (simp add: length_fold_update)
    then show "?d ! i = map (\<lambda>e. if nav_anchor e then mark ?here e else e) doc ! i"
      by (simp add: nth_fold_update distinct_querySelectorAll set_querySelectorAll)
  qed
  then show ?thesis by (simp add: markActiveNav_def forEach_nav_callback)
qed

lemma mark_no_href: "href_attr e = None \<Longrightarrow> mark here e = e"
  by (simp add: mark_def)

lemma mark_empty_href: "href_attr e = Some [] \<Longrightarrow> mark here e = e"
  by (simp add: mark_def)

lemma mark_other: "href_attr e = Some h \<Longrightarrow> replace_index_html h \<noteq> here \<Longrightarrow> mark here e = e"
  by (simp add: mark_def)

lemma mark_match:
  "href_attr e = Some h \<Longrightarrow> h \<noteq> [] \<Longrightarrow> replace_index_html h = here \<Longrightarrow>
   ''active'' \<in> set (classList (mark here e))"
  by (simp add: mark_def)

lemma mark_flagged: "''active'' \<in> set (classList e) \<Longrightarrow> mark here e = e"
  by (simp add: mark_def split: option.split)

lemma mark_keeps:
  "href_attr (mark here e) = href_attr e" "nav_anchor (mark here e) = nav_anchor e"
  "id_attr (mark here e) = id_attr e" "textContent (mark here e) = textContent e"
  by (simp_all add: mark_def split: option.split)

lemma mark_idem: "mark here (mark here e) = mark here e"
  by (simp add: mark_def split: option.split)

lemma markActiveNav_anchor:
  assumes "a \<in> set (querySelectorAll_nav_a doc)"
  shows "\<exists>doc'. markActiveNav pathname doc = Inr doc' \<and> length doc' = length doc \<and>
           doc' ! a = mark (replace_index_html pathname) (doc ! a)"
  using assms by (simp add: markActiveNav_map set_querySelectorAll)

section \<open>Decimal numerals\<close>

lemma length_nat_digits_small: "n < 10 \<Longrightarrow> length (nat_digits n) = 1"
  by (simp add: nat_digits.simps)

lemma length_nat_digits_step:
  "\<not> n < 10 \<Longrightarrow> length (nat_digits n) = Suc (length (nat_digits (n div 10)))"
  by (subst nat_digits.simps) simp

lemma length_nat_digits_pos: "0 < length (nat_digits n)"
  by (cases "n < 10") (simp_all add: length_nat_digits_small length_nat_digits_step)

lemma length_nat_digits_four: "length (nat_digits n) = 4 \<longleftrightarrow> 1000 \<le> n \<and> n < 10000"
proof -
  consider "n < 10" | "10 \<le> n" "n < 100" | "100 \<le> n" "n < 1000"
    | "1000 \<le> n" "n < 10000" | "10000 \<le> n" by linarith
  then show ?thesis
  proof cases
    case 1
    then show ?thesis by (simp add: length_nat_digits_small)
  next
    case 2
    then have "n div 10 < 10" by simp
    with 2 show ?thesis by (simp add: length_nat_digits_small length_nat_digits_step)
  next
    case 3
    then have "\<not> n div 10 < 10" "n div 10 div 10 < 10" by simp_all
    with 3 show ?thesis by (simp add: length_nat_digits_small length_nat_digits_step)
  next
    case 4
    then have "\<not> n div 10 < 10" "\<not> n div 10 div 10 < 10" "n div 10 div 10 div 10 < 10"
      by simp_all
    with 4 show ?thesis by (simp add: length_nat_digits_small length_nat_digits_step)
  next
    case 5
    then have "\<not> n < 10" "\<not> n div 10 < 10" "\<not> n div 10 div 10 < 10"
      "\<not> n div 10 div 10 div 10 < 10" by simp_all
    then have "length (nat_digits n) =
      Suc (Suc (Suc (Suc (length (nat_digits (n div 10 div 10 div 10 div 10))))))"
      by (simp add: length_nat_digits_step)
    with 5 length_nat_digits_pos [of "n div 10 div 10 div 10 div 10"] show ?thesis by simp
  qed
qed

lemma is_digit_digit_char: "d < 10 \<Longrightarrow> is_digit (digit_char d)"
  unfolding digit_char_def is_digit_def by (rule nth_mem) simp

lemma nat_digits_all_digits: "list_all is_digit (nat_digits n)"
proof (induction n rule: nat_digits.induct)
  case (1 n)
  show ?case
  proof (cases "n < 10")
    case True
    then show ?thesis by (subst nat_digits.simps) (simp add: is_digit_digit_char)
  next
    case False
    with 1 show ?thesis by (subst nat_digits.simps) (simp add: is_digit_digit_char)
  qed
qed

lemma digit_val_digit_char: "d < 10 \<Longrightarrow> digit_val (digit_char d) = d"
proof -
  assume "d < 10"
  then have "d \<in> {0, 1, 2, 3, 4, 5, 6, 7, 8, 9}" by auto
  then show ?thesis by (elim insertE emptyE) (simp_all add: digit_val_def digit_char_def)
qed

lemma numeral_val_snoc: "numeral_val (s @ [c]) = 10 * numeral_val s + digit_val c"
  by (simp add: numeral_val_def)

lemma numeral_val_nat_digits: "numeral_val (nat_digits n) = n"
proof (induction n rule: nat_digits.induct)
  case (1 n)
  show ?case
  proof (cases "n < 10")
    case True
    then show ?thesis
      by (subst nat_digits.simps) (simp add: numeral_val_def digit_val_digit_char)
  next
    case False
    with 1 show ?thesis
      by (subst nat_digits.simps) (simp add: numeral_val_snoc digit_val_digit_char)
  qed
qed

lemma minus_not_digit: "\<not> is_digit CHR ''-''"
  by (simp add: is_digit_def)

lemma Number_toString_four_digits:
  "length (Number_toString i) = 4 \<and> list_all is_digit (Number_toString i)
     \<longleftrightarrow> 1000 \<le> i \<and> i \<le> 9999"
proof (cases "i < 0")
  case True
  then show ?thesis by (simp add: Number_toString_def minus_not_digit)
next
  case False
  then have "length (nat_digits (nat i)) = 4 \<longleftrightarrow> 1000 \<le> i \<and> i \<le> 9999"
    unfolding length_nat_digits_four by auto
  with False show ?thesis by (simp add: Number_toString_def nat_digits_all_digits)
qed

lemma Number_toString_value:
  "0 \<le> i \<Longrightarrow> int (numeral_val (Number_toString i)) = i"
  by (simp add: Number_toString_def numeral_val_nat_digits)

lemma Number_toString_negative:
  "i < 0 \<Longrightarrow> Number_toString i = CHR ''-'' # nat_digits (nat (- i))"
  by (simp add: Number_toString_def)

section \<open>Finding and writing the year element\<close>

lemma getElementById_Some:
  assumes "getElementById s doc = Some y"
  shows "y < length doc" "id_attr (doc ! y) = Some s"
  using assms unfolding getElementById_def find_Some_iff by auto

lemma getElementById_ids:
  assumes "map id_attr doc' = map id_attr doc"
  shows "getElementById s doc' = getElementById s doc"
proof -
  have len: "length doc' = length doc" using assms by (metis length_map)
  have "\<And>r. r < length doc \<Longrightarrow> id_attr (doc' ! r) = id_attr (doc ! r)"
    using assms len by (metis nth_map)
  then show ?thesis unfolding getElementById_def len
    by (intro find_cong) auto
qed

lemma setYear_found:
  assumes "getElementById ''y'' doc = Some y"
  shows "setYear fullYear doc = Inr (doc[y := (doc ! y)\<lparr>textContent := Number_toString fullYear\<rparr>])"
  using assms by (simp add: setYear_def set_textContent_def)

lemma map_id_attr_text:
  "map id_attr (doc[y := (doc ! y)\<lparr>textContent := t\<rparr>]) = map id_attr doc"
  by (cases "y < length doc") (simp_all add: map_update list_update_same_conv list_update_beyond)

section \<open>Skipped anchors and the example page\<close>

lemma nav_callback_skip:
  "href_attr (doc ! a) = None \<or> href_attr (doc ! a) = Some [] \<Longrightarrow> nav_callback here a doc = Inr doc"
  by (auto simp: nav_callback_def)

lemma querySelectorAll_mark:
  "querySelectorAll_nav_a (map (\<lambda>e. if nav_anchor e then mark here e else e) doc)
     = querySelectorAll_nav_a doc"
  unfolding querySelectorAll_nav_a_def
  by (auto intro!: filter_cong simp: mark_keeps split: if_splits)

lemma page_refs: "querySelectorAll_nav_a page = [0, 1, 2, 3, 4, 5]"
  by code_simp

section \<open>The claims\<close>

subsection \<open>Path normalisation\<close>

text \<open>
  C3. The replacement is idempotent: applying it to its own result gives that result
  again, for every string.
\<close>
theorem replace_index_html_idempotent:
  "replace_index_html (replace_index_html p) = replace_index_html p"
proof (cases "suffix ''/index.html'' p")
  case True
  then obtain q where "p = q @ ''/index.html''" by (auto simp: suffix_def)
  then show ?thesis by (simp add: replace_match replace_no_match slash_end_no_match)
next
  case False
  then show ?thesis by (simp add: replace_no_match)
qed

theorem replace_index_html_idempotent_witness:
  "replace_index_html ''/docs/index.html'' = ''/docs/'' \<and>
   replace_index_html (replace_index_html ''/docs/index.html'') = ''/docs/''"
proof -
  have one: "replace_index_html ''/docs/index.html'' = ''/docs/''" by code_simp
  have "replace_index_html (replace_index_html ''/docs/index.html'') = ''/docs/''"
    using replace_index_html_idempotent [of "''/docs/index.html''"] one by simp
  with one show ?thesis by simp
qed

text \<open>
  C10. The replacement changes only strings that end in \<open>/index.html\<close>, slash
  included: every other string is returned as it is. In particular \<open>index.html\<close>
  is not mapped to \<open>/\<close>, and \<open>/myindex.html\<close> stays as it is.
\<close>
theorem replace_index_html_only_suffix:
  "(\<not> suffix ''/index.html'' p \<longrightarrow> replace_index_html p = p) \<and>
   replace_index_html ''index.html'' = ''index.html'' \<and>
   replace_index_html ''/myindex.html'' = ''/myindex.html''"
proof (intro conjI impI)
  assume "\<not> suffix ''/index.html'' p"
  then show "replace_index_html p = p" by (rule replace_no_match)
next
  show "replace_index_html ''index.html'' = ''index.html''" by code_simp
next
  show "replace_index_html ''/myindex.html'' = ''/myindex.html''" by code_simp
qed

theorem replace_index_html_only_suffix_witness:
  "\<not> suffix ''/index.html'' ''/blog/post.html'' \<and>
   replace_index_html ''/blog/post.html'' = ''/blog/post.html''"
proof -
  have h: "\<not> suffix ''/index.html'' ''/blog/post.html''" by code_simp
  from replace_index_html_only_suffix [of "''/blog/post.html''"] h
  have "replace_index_html ''/blog/post.html'' = ''/blog/post.html''" by blast
  with h show ?thesis by simp
qed

subsection \<open>\<open>setYear\<close>\<close>

text \<open>
  C4 (as amended). When an element with id \<open>y\<close> exists, \<open>setYear\<close> completes without
  an exception and sets the text of that element (the first one in tree order, which
  stays the one found afterwards) to the decimal numeral of the local calendar year
  read from the clock: for a year from 0 on the text read back as a number is the
  year, and the text consists of exactly four digits if and only if the year lies
  between 1000 and 9999.
\<close>
theorem setYear_writes_year:
  assumes "getElementById ''y'' doc = Some y"
  shows "\<exists>doc'. setYear fullYear doc = Inr doc' \<and>
           getElementById ''y'' doc' = Some y \<and>
           textContent (doc' ! y) = Number_toString fullYear \<and>
           (0 \<le> fullYear \<longrightarrow> int (numeral_val (textContent (doc' ! y))) = fullYear) \<and>
           (length (textContent (doc' ! y)) = 4 \<and> list_all is_digit (textContent (doc' ! y))
              \<longleftrightarrow> 1000 \<le> fullYear \<and> fullYear \<le> 9999)"
proof -
  let ?doc' = "doc[y := (doc ! y)\<lparr>textContent := Number_toString fullYear\<rparr>]"
  have run: "setYear fullYear doc = Inr ?doc'" using assms by (rule setYear_found)
  have y: "y < length doc" using assms by (rule getElementById_Some)
  have same: "getElementById ''y'' ?doc' = Some y"
    using assms by (simp add: getElementById_ids [OF map_id_attr_text])
  have tc: "textContent (?doc' ! y) = Number_toString fullYear" using y by simp
  show ?thesis
    using run same tc Number_toString_value [of fullYear]
      Number_toString_four_digits [of fullYear]
    by simp
qed

theorem setYear_writes_year_witness:
  "getElementById ''y'' page = Some 6 \<and>
   setYear 2026 page = Inr (page[6 := year_span\<lparr>textContent := ''2026''\<rparr>]) \<and>
   numeral_val ''2026'' = 2026 \<and> length ''2026'' = 4"
proof -
  have h: "getElementById ''y'' page = Some 6" by code_simp
  have n: "Number_toString 2026 = ''2026''"
    by (simp add: Number_toString_def nat_digits.simps digit_char_def)
  have p6: "page ! 6 = year_span" by (simp add: page_def)
  obtain doc' where r: "setYear 2026 page = Inr doc'"
    and t: "textContent (doc' ! 6) = Number_toString 2026"
    and v: "(0::int) \<le> 2026 \<longrightarrow> int (numeral_val (textContent (doc' ! 6))) = 2026"
    using setYear_writes_year [OF h, of 2026] by blast
  have e: "setYear 2026 page = Inr (page[6 := year_span\<lparr>textContent := ''2026''\<rparr>])"
    using setYear_found [OF h, of 2026] by (simp only: n p6)
  from v t n have "numeral_val ''2026'' = 2026" by simp
  with h e show ?thesis by simp
qed

text \<open>
  C4 as first stated, four digits for any date, fails for a clock that reads a date
  in the year 10000: the text becomes \<open>10000\<close>.
\<close>
theorem setYear_four_digits_counterexample:
  "getElementById ''y'' [year_span] = Some 0 \<and>
   setYear 10000 [year_span] = Inr [year_span\<lparr>textContent := ''10000''\<rparr>] \<and>
   length (textContent ([year_span\<lparr>textContent := ''10000''\<rparr>] ! 0)) \<noteq> 4"
proof -
  have h: "getElementById ''y'' [year_span] = Some 0" by code_simp
  have n: "Number_toString 10000 = ''10000''"
    by (simp add: Number_toString_def nat_digits.simps digit_char_def)
  have "setYear 10000 [year_span] = Inr [year_span\<lparr>textContent := ''10000''\<rparr>]"
    using setYear_found [OF h, of 10000] by (simp add: n)
  with h show ?thesis by simp
qed

text \<open>
  C5. When no element with id \<open>y\<close> exists, \<open>setYear\<close> completes without an exception
  and leaves the document exactly as it was.
\<close>
theorem setYear_absent:
  "getElementById ''y'' doc = None \<Longrightarrow> setYear fullYear doc = Inr doc"
  by (simp add: setYear_def)

theorem setYear_absent_witness:
  "getElementById ''y'' page_without_year = None \<and>
   setYear 2026 page_without_year = Inr page_without_year"
proof -
  have h: "getElementById ''y'' page_without_year = None" by code_simp
  from setYear_absent [OF h, of 2026] h show ?thesis by simp
qed

subsection \<open>\<open>markActiveNav\<close>\<close>

text \<open>
  C1 (as amended). For every navigation anchor whose \<open>href\<close> attribute is present:
  after \<open>markActiveNav\<close> the anchor carries the \<open>active\<close> flag if its \<open>href\<close> is
  not the empty string and its normal form equals the normal form of the current path
  (equality of the whole strings); if the \<open>href\<close> is empty or the two normal forms
  differ, the routine leaves the anchor as it was. The routine completes without an
  exception.
\<close>
theorem markActiveNav_exact_match:
  assumes "a \<in> set (querySelectorAll_nav_a doc)" and "href_attr (doc ! a) = Some href"
  shows "\<exists>doc'. markActiveNav pathname doc = Inr doc' \<and>
           (href \<noteq> [] \<and> replace_index_html href = replace_index_html pathname
              \<longrightarrow> ''active'' \<in> set (classList (doc' ! a))) \<and>
           (href = [] \<or> replace_index_html href \<noteq> replace_index_html pathname
              \<longrightarrow> doc' ! a = doc ! a)"
proof -
  let ?here = "replace_index_html pathname"
  obtain doc' where run: "markActiveNav pathname doc = Inr doc'"
    and at: "doc' ! a = mark ?here (doc ! a)"
    using markActiveNav_anchor [OF assms(1)] by blast
  have "href \<noteq> [] \<and> replace_index_html href = ?here \<longrightarrow> ''active'' \<in> set (classList (doc' ! a))"
    using at mark_match [OF assms(2)] by simp
  moreover have "href = [] \<or> replace_index_html href \<noteq> ?here \<longrightarrow> doc' ! a = doc ! a"
    using at assms(2) mark_empty_href [of "doc ! a"] mark_other [OF assms(2)] by auto
  ultimately show ?thesis using run by blast
qed

theorem markActiveNav_exact_match_witness:
  "1 \<in> set (querySelectorAll_nav_a page) \<and> href_attr (page ! 1) = Some ''/'' \<and>
   2 \<in> set (querySelectorAll_nav_a page) \<and> href_attr (page ! 2) = Some ''/blog/'' \<and>
   replace_index_html ''/'' = replace_index_html ''/'' \<and>
   replace_index_html ''/blog/'' \<noteq> replace_index_html ''/'' \<and>
   (\<exists>doc'. markActiveNav ''/'' page = Inr doc' \<and>
      ''active'' \<in> set (classList (doc' ! 1)) \<and> doc' ! 2 = page ! 2)"
proof -
  have a1: "1 \<in> set (querySelectorAll_nav_a page)" by (simp add: page_refs)
  have a2: "2 \<in> set (querySelectorAll_nav_a page)" by (simp add: page_refs)
  have h1: "href_attr (page ! 1) = Some ''/''" by (simp add: page_def home_link_def)
  have h2: "href_attr (page ! 2) = Some ''/blog/''" by (simp add: page_def blog_link_def)
  have ne: "replace_index_html ''/blog/'' \<noteq> replace_index_html ''/''" by code_simp
  obtain d1 where r1: "markActiveNav ''/'' page = Inr d1"
    and m1: "''/'' \<noteq> [] \<and> replace_index_html ''/'' = replace_index_html ''/''
               \<longrightarrow> ''active'' \<in> set (classList (d1 ! 1))"
    using markActiveNav_exact_match [OF a1 h1, of "''/''"] by blast
  obtain d2 where r2: "markActiveNav ''/'' page = Inr d2"
    and m2: "''/blog/'' = [] \<or> replace_index_html ''/blog/'' \<noteq> replace_index_html ''/''
               \<longrightarrow> d2 ! 2 = page ! 2"
    using markActiveNav_exact_match [OF a2 h2, of "''/''"] by blast
  from r1 r2 have same: "d2 = d1" by simp
  from m1 have "''active'' \<in> set (classList (d1 ! 1))" by simp
  moreover from m2 ne same have "d1 ! 2 = page ! 2" by simp
  ultimately show ?thesis using a1 a2 h1 h2 ne r1 by blast
qed

text \<open>
  C1 as first stated, for every anchor that has an \<open>href\<close> attribute, fails for the
  empty \<open>href\<close> on a page whose path is the empty string: both normal forms are the
  empty string, and the anchor is not flagged.
\<close>
theorem markActiveNav_empty_href_counterexample:
  "0 \<in> set (querySelectorAll_nav_a [empty_link]) \<and>
   href_attr ([empty_link] ! 0) = Some [] \<and>
   replace_index_html [] = replace_index_html [] \<and>
   markActiveNav [] [empty_link] = Inr [empty_link] \<and>
   ''active'' \<notin> set (classList ([empty_link] ! 0))"
  by code_simp

text \<open>
  C2. A string that ends in \<open>/index.html\<close> is mapped to the same string with that
  ending replaced by \<open>/\<close>, and this is applied to the current path and to the link
  target alike: with current path \<open>/blog/index.html\<close> an anchor whose target is
  \<open>/blog/\<close> is flagged, and with current path \<open>/about/\<close> an anchor whose target is
  \<open>/about/index.html\<close> is flagged.
\<close>
theorem markActiveNav_index_examples:
  "replace_index_html (p @ ''/index.html'') = p @ ''/'' \<and>
   (a \<in> set (querySelectorAll_nav_a doc) \<and> href_attr (doc ! a) = Some ''/blog/''
      \<longrightarrow> (\<exists>doc'. markActiveNav ''/blog/index.html'' doc = Inr doc' \<and>
             ''active'' \<in> set (classList (doc' ! a)))) \<and>
   (b \<in> set (querySelectorAll_nav_a doc) \<and> href_attr (doc ! b) = Some ''/about/index.html''
      \<longrightarrow> (\<exists>doc'. markActiveNav ''/about/'' doc = Inr doc' \<and>
             ''active'' \<in> set (classList (doc' ! b))))"
proof (intro conjI impI)
  show "replace_index_html (p @ ''/index.html'') = p @ ''/''" by (rule replace_match)
next
  assume h: "a \<in> set (querySelectorAll_nav_a doc) \<and> href_attr (doc ! a) = Some ''/blog/''"
  have eq: "replace_index_html ''/blog/'' = replace_index_html ''/blog/index.html''"
    by code_simp
  obtain doc' where "markActiveNav ''/blog/index.html'' doc = Inr doc'"
    and "doc' ! a = mark (replace_index_html ''/blog/index.html'') (doc ! a)"
    using markActiveNav_anchor h by blast
  moreover have "''active'' \<in> set (classList (mark (replace_index_html ''/blog/index.html'') (doc ! a)))"
    using h eq by (intro mark_match [of _ "''/blog/''"]) simp_all
  ultimately show "\<exists>doc'. markActiveNav ''/blog/index.html'' doc = Inr doc' \<and>
      ''active'' \<in> set (classList (doc' ! a))" by simp
next
  assume h: "b \<in> set (querySelectorAll_nav_a doc) \<and> href_attr (doc ! b) = Some ''/about/index.html''"
  have eq: "replace_index_html ''/about/index.html'' = replace_index_html ''/about/''"
    by code_simp
  obtain doc' where "markActiveNav ''/about/'' doc = Inr doc'"
    and "doc' ! b = mark (replace_index_html ''/about/'') (doc ! b)"
    using markActiveNav_anchor h by blast
  moreover have "''active'' \<in> set (classList (mark (replace_index_html ''/about/'') (doc ! b)))"
    using h eq by (intro mark_match [of _ "''/about/index.html''"]) simp_all
  ultimately show "\<exists>doc'. markActiveNav ''/about/'' doc = Inr doc' \<and>
      ''active'' \<in> set (classList (doc' ! b))" by simp
qed

theorem markActiveNav_index_examples_witness:
  "2 \<in> set (querySelectorAll_nav_a page) \<and> href_attr (page ! 2) = Some ''/blog/'' \<and>
   3 \<in> set (querySelectorAll_nav_a page) \<and> href_attr (page ! 3) = Some ''/about/index.html'' \<and>
   replace_index_html ''/docs/index.html'' = ''/docs/'' \<and>
   (\<exists>doc'. markActiveNav ''/blog/index.html'' page = Inr doc' \<and>
      ''active'' \<in> set (classList (doc' ! 2))) \<and>
   (\<exists>doc'. markActiveNav ''/about/'' page = Inr doc' \<and>
      ''active'' \<in> set (classList (doc' ! 3)))"
proof -
  have a2: "2 \<in> set (querySelectorAll_nav_a page)" by (simp add: page_refs)
  have a3: "3 \<in> set (querySelectorAll_nav_a page)" by (simp add: page_refs)
  have h2: "href_attr (page ! 2) = Some ''/blog/''" by (simp add: page_def blog_link_def)
  have h3: "href_attr (page ! 3) = Some ''/about/index.html''"
    by (simp add: page_def about_link_def)
  note ex = markActiveNav_index_examples [of "''/docs''" 2 page 3]
  from ex have "replace_index_html ''/docs/index.html'' = ''/docs/''" by simp
  moreover from ex a2 h2 have "\<exists>doc'. markActiveNav ''/blog/index.html'' page = Inr doc' \<and>
      ''active'' \<in> set (classList (doc' ! 2))" by blast
  moreover from ex a3 h3 have "\<exists>doc'. markActiveNav ''/about/'' page = Inr doc' \<and>
      ''active'' \<in> set (classList (doc' ! 3))" by blast
  ultimately show ?thesis using a2 a3 h2 h3 by blast
qed

text \<open>
  C6. A navigation anchor without an \<open>href\<close> attribute is skipped: the callback
  returns on it without an exception and without touching the document, the loop
  goes on with the remaining anchors, and at the end of \<open>markActiveNav\<close> that anchor
  is as it was while every anchor with a matching non-empty \<open>href\<close> carries the flag.
\<close>
theorem markActiveNav_skips_missing_href:
  assumes "a \<in> set (querySelectorAll_nav_a doc)" and "href_attr (doc ! a) = None"
  shows "nav_callback here a doc = Inr doc \<and>
         forEach (nav_callback here) (a # rest) doc = forEach (nav_callback here) rest doc \<and>
         (\<exists>doc'. markActiveNav pathname doc = Inr doc' \<and> doc' ! a = doc ! a \<and>
            (\<forall>b\<in>set (querySelectorAll_nav_a doc). \<forall>h.
               href_attr (doc ! b) = Some h \<and> h \<noteq> [] \<and>
               replace_index_html h = replace_index_html pathname
                 \<longrightarrow> ''active'' \<in> set (classList (doc' ! b))))"
proof -
  let ?here = "replace_index_html pathname"
  have skip: "nav_callback here a doc = Inr doc"
    using assms(2) by (simp add: nav_callback_skip)
  then have loop: "forEach (nav_callback here) (a # rest) doc = forEach (nav_callback here) rest doc"
    by simp
  let ?doc' = "map (\<lambda>e. if nav_anchor e then mark ?here e else e) doc"
  have run: "markActiveNav pathname doc = Inr ?doc'" by (rule markActiveNav_map)
  have same: "?doc' ! a = doc ! a"
    using assms by (simp add: set_querySelectorAll mark_no_href)
  have others: "''active'' \<in> set (classList (?doc' ! b))"
    if "b \<in> set (querySelectorAll_nav_a doc)" and "href_attr (doc ! b) = Some h"
      and "h \<noteq> []" and "replace_index_html h = ?here" for b h
    using that by (simp add: set_querySelectorAll mark_match)
  from skip loop run same others show ?thesis by blast
qed

theorem markActiveNav_skips_missing_href_witness:
  "0 \<in> set (querySelectorAll_nav_a page) \<and> href_attr (page ! 0) = None \<and>
   2 \<in> set (querySelectorAll_nav_a page) \<and> href_attr (page ! 2) = Some ''/blog/'' \<and>
   replace_index_html ''/blog/'' = replace_index_html ''/blog/index.html'' \<and>
   nav_callback ''/blog/'' 0 page = Inr page \<and>
   (\<exists>doc'. markActiveNav ''/blog/index.html'' page = Inr doc' \<and> doc' ! 0 = page ! 0 \<and>
      ''active'' \<in> set (classList (doc' ! 2)))"
proof -
  have a0: "0 \<in> set (querySelectorAll_nav_a page)" by (simp add: page_refs)
  have a2: "2 \<in> set (querySelectorAll_nav_a page)" by (simp add: page_refs)
  have h0: "href_attr (page ! 0) = None" by (simp add: page_def bare_link_def)
  have h2: "href_attr (page ! 2) = Some ''/blog/''" by (simp add: page_def blog_link_def)
  have eq: "replace_index_html ''/blog/'' = replace_index_html ''/blog/index.html''"
    by code_simp
  note inst = markActiveNav_skips_missing_href [OF a0 h0, of "''/blog/''" "[]" "''/blog/index.html''"]
  from inst have cb: "nav_callback ''/blog/'' 0 page = Inr page" by blast
  from inst obtain doc' where r: "markActiveNav ''/blog/index.html'' page = Inr doc'"
    and s: "doc' ! 0 = page ! 0"
    and o: "\<forall>b\<in>set (querySelectorAll_nav_a page). \<forall>h.
               href_attr (page ! b) = Some h \<and> h \<noteq> [] \<and>
               replace_index_html h = replace_index_html ''/blog/index.html''
                 \<longrightarrow> ''active'' \<in> set (classList (doc' ! b))"
    by blast
  from o a2 h2 eq have "''active'' \<in> set (classList (doc' ! 2))" by auto
  with a0 a2 h0 h2 eq cb r s show ?thesis by blast
qed

text \<open>
  C9. A navigation anchor whose \<open>href\<close> attribute is present but empty is treated
  like one without the attribute: the callback returns on it at once, as it does on
  the same anchor with the attribute removed, and \<open>markActiveNav\<close> completes and
  leaves the anchor as it was for every current path. That includes the empty path,
  whose normal form is the normal form of the empty \<open>href\<close>.
\<close>
theorem markActiveNav_skips_empty_href:
  assumes "a \<in> set (querySelectorAll_nav_a doc)" and "href_attr (doc ! a) = Some []"
  shows "nav_callback here a doc = Inr doc \<and>
         nav_callback here a (doc[a := (doc ! a)\<lparr>href_attr := None\<rparr>])
           = Inr (doc[a := (doc ! a)\<lparr>href_attr := None\<rparr>]) \<and>
         (\<exists>doc'. markActiveNav pathname doc = Inr doc' \<and> doc' ! a = doc ! a) \<and>
         replace_index_html [] = [] \<and>
         (\<exists>doc'. markActiveNav [] doc = Inr doc' \<and> doc' ! a = doc ! a)"
proof -
  have a: "a < length doc" using assms(1) by (simp add: set_querySelectorAll)
  have skip: "nav_callback here a doc = Inr doc"
    using assms(2) by (simp add: nav_callback_skip)
  have skip': "nav_callback here a (doc[a := (doc ! a)\<lparr>href_attr := None\<rparr>])
           = Inr (doc[a := (doc ! a)\<lparr>href_attr := None\<rparr>])"
    using a by (simp add: nav_callback_skip)
  have run: "\<exists>doc'. markActiveNav p doc = Inr doc' \<and> doc' ! a = doc ! a" for p
    using markActiveNav_anchor [OF assms(1), of p] assms(2) by (auto simp: mark_empty_href)
  have "replace_index_html [] = []" by (simp add: replace_empty_iff)
  with skip skip' run [of pathname] run [of "[]"] show ?thesis by simp
qed

theorem markActiveNav_skips_empty_href_witness:
  "4 \<in> set (querySelectorAll_nav_a page) \<and> href_attr (page ! 4) = Some [] \<and>
   nav_callback [] 4 page = Inr page \<and>
   (\<exists>doc'. markActiveNav [] page = Inr doc' \<and> doc' ! 4 = page ! 4 \<and>
      ''active'' \<notin> set (classList (doc' ! 4)))"
proof -
  have a4: "4 \<in> set (querySelectorAll_nav_a page)" by (simp add: page_refs)
  have h4: "href_attr (page ! 4) = Some []" by (simp add: page_def empty_link_def)
  have c4: "''active'' \<notin> set (classList (page ! 4))" by (simp add: page_def empty_link_def)
  note inst = markActiveNav_skips_empty_href [OF a4 h4, of "[]" "[]"]
  from inst have cb: "nav_callback [] 4 page = Inr page" by blast
  from inst obtain doc' where "markActiveNav [] page = Inr doc'" and "doc' ! 4 = page ! 4"
    by blast
  with a4 h4 c4 cb show ?thesis by auto
qed

text \<open>
  C8. \<open>markActiveNav\<close> never removes a flag: a navigation anchor that carries
  \<open>active\<close> before the run is still a navigation anchor and still carries \<open>active\<close>
  after it, whatever the current path and the anchor's link target are.
\<close>
theorem markActiveNav_keeps_flags:
  assumes "a \<in> set (querySelectorAll_nav_a doc)" and "''active'' \<in> set (classList (doc ! a))"
  shows "\<exists>doc'. markActiveNav pathname doc = Inr doc' \<and>
           a \<in> set (querySelectorAll_nav_a doc') \<and> ''active'' \<in> set (classList (doc' ! a))"
proof -
  let ?here = "replace_index_html pathname"
  let ?doc' = "map (\<lambda>e. if nav_anchor e then mark ?here e else e) doc"
  have run: "markActiveNav pathname doc = Inr ?doc'" by (rule markActiveNav_map)
  have "a \<in> set (querySelectorAll_nav_a ?doc')"
    using assms(1) by (simp only: querySelectorAll_mark)
  moreover have "?doc' ! a = doc ! a"
    using assms by (simp add: set_querySelectorAll mark_flagged)
  ultimately show ?thesis using run assms(2) by simp
qed

theorem markActiveNav_keeps_flags_witness:
  "5 \<in> set (querySelectorAll_nav_a page) \<and> ''active'' \<in> set (classList (page ! 5)) \<and>
   href_attr (page ! 5) = Some ''/old/'' \<and>
   replace_index_html ''/old/'' \<noteq> replace_index_html ''/blog/'' \<and>
   (\<exists>doc'. markActiveNav ''/blog/'' page = Inr doc' \<and>
      ''active'' \<in> set (classList (doc' ! 5)))"
proof -
  have a5: "5 \<in> set (querySelectorAll_nav_a page)" by (simp add: page_refs)
  have f5: "''active'' \<in> set (classList (page ! 5))" by (simp add: page_def stale_link_def)
  have h5: "href_attr (page ! 5) = Some ''/old/''" by (simp add: page_def stale_link_def)
  have ne: "replace_index_html ''/old/'' \<noteq> replace_index_html ''/blog/''" by code_simp
  from markActiveNav_keeps_flags [OF a5 f5, of "''/blog/''"]
  have "\<exists>doc'. markActiveNav ''/blog/'' page = Inr doc' \<and>
      ''active'' \<in> set (classList (doc' ! 5))" by blast
  with a5 f5 h5 ne show ?thesis by blast
qed

text \<open>
  C7. \<open>markActiveNav\<close> is idempotent: for every document and current path, a second
  run on the result of the first completes and changes nothing, so the anchors that
  carry the flag after two runs are those that carry it after one.
\<close>
theorem markActiveNav_idempotent:
  "\<exists>d1 d2. markActiveNav pathname doc = Inr d1 \<and> markActiveNav pathname d1 = Inr d2 \<and>
      d2 = d1 \<and> active_anchors d2 = active_anchors d1"
proof -
  let ?f = "\<lambda>e. if nav_anchor e then mark (replace_index_html pathname) e else e"
  have "map ?f (map ?f doc) = map ?f doc"
    by (simp add: mark_idem mark_keeps)
  then have "markActiveNav pathname (map ?f doc) = Inr (map ?f doc)"
    by (simp add: markActiveNav_map)
  then show ?thesis using markActiveNav_map [of pathname doc] by simp
qed

theorem markActiveNav_idempotent_witness:
  "markActiveNav ''/blog/'' page = Inr (page[2 := blog_link\<lparr>classList := [''active'']\<rparr>]) \<and>
   markActiveNav ''/blog/'' (page[2 := blog_link\<lparr>classList := [''active'']\<rparr>])
     = Inr (page[2 := blog_link\<lparr>classList := [''active'']\<rparr>]) \<and>
   active_anchors (page[2 := blog_link\<lparr>classList := [''active'']\<rparr>]) = [2, 5]"
proof -
  have once: "markActiveNav ''/blog/'' page = Inr (page[2 := blog_link\<lparr>classList := [''active'']\<rparr>])"
    by code_simp
  have act: "active_anchors (page[2 := blog_link\<lparr>classList := [''active'']\<rparr>]) = [2, 5]"
    by code_simp
  from markActiveNav_idempotent [of "''/blog/''" page] once
  have "markActiveNav ''/blog/'' (page[2 := blog_link\<lparr>classList := [''active'']\<rparr>])
     = Inr (page[2 := blog_link\<lparr>classList := [''active'']\<rparr>])" by auto
  with once act show ?thesis by simp
qed

end
